theory Spec2Isabelle
  imports Complex_Main
begin

section \<open>Python values used by the alpha model\<close>

text \<open>
  Assets are the strings the universe and the signals hand out (\<^verbatim>\<open>'EQ:XLB'\<close>); a timestamp
  is an opaque integer. Python floats are modelled by exact reals: rounding and the
  non-finite values are not part of the model, so \<^verbatim>\<open>1.0 / n\<close> is the exact quotient and
  any two signal values compare.
\<close>

type_synonym asset = string
type_synonym timestamp = int

datatype error = AssertionError | KeyError | ZeroDivisionError

text \<open>
  A Python \<^verbatim>\<open>dict\<close> keeps its keys in insertion order, and \<^verbatim>\<open>sorted(d.items(), ...)\<close>
  depends on that order, so a dict is an association list. Storing under a key that is present
  replaces the value and keeps the key's position; a new key goes to the end.
\<close>

fun dict_set :: "('k \<times> 'v) list \<Rightarrow> 'k \<Rightarrow> 'v \<Rightarrow> ('k \<times> 'v) list" where
  "dict_set [] k v = [(k, v)]"
| "dict_set ((k', v') # d) k v =
     (if k' = k then (k', v) # d else (k', v') # dict_set d k v)"

text \<open>\<^verbatim>\<open>{k: f(k) for k in ks}\<close>\<close>

definition dict_comp :: "('k \<Rightarrow> 'v) \<Rightarrow> 'k list \<Rightarrow> ('k \<times> 'v) list" where
  "dict_comp f ks = fold (\<lambda>k d. dict_set d k (f k)) ks []"

text \<open>\<^verbatim>\<open>{k: v for k, v in ps}\<close>\<close>

definition dict_of_pairs :: "('k \<times> 'v) list \<Rightarrow> ('k \<times> 'v) list" where
  "dict_of_pairs ps = fold (\<lambda>p d. dict_set d (fst p) (snd p)) ps []"

text \<open>\<^verbatim>\<open>d[k]\<close>, which raises \<^verbatim>\<open>KeyError\<close> on a missing key.\<close>

definition dict_get :: "('k \<times> 'v) list \<Rightarrow> 'k \<Rightarrow> error + 'v" where
  "dict_get d k = (case map_of d k of None \<Rightarrow> Inl KeyError | Some v \<Rightarrow> Inr v)"

text \<open>
  \<^verbatim>\<open>sorted(xs, key=..., reverse=...)\<close>. The sort is stable; with \<^verbatim>\<open>reverse=True\<close> CPython
  reverses the list, sorts it and reverses the result, so that equal keys keep their original
  order in the descending list too.
\<close>

definition py_sorted :: "('a \<Rightarrow> real) \<Rightarrow> bool \<Rightarrow> 'a list \<Rightarrow> 'a list" where
  "py_sorted key reverse xs =
     (if reverse then rev (sort_key key (rev xs)) else sort_key key xs)"

text \<open>
  \<^verbatim>\<open>xs[:n]\<close> for a Python integer \<open>n\<close>: a negative \<open>n\<close> counts from the end, and a
  bound outside the list is clipped.
\<close>

definition py_slice_to :: "'a list \<Rightarrow> int \<Rightarrow> 'a list" where
  "py_slice_to xs n =
     (if 0 \<le> n then take (nat n) xs else take (nat (int (length xs) + n)) xs)"

section \<open>The alpha model of \<^verbatim>\<open>examples/dbtrx.py\<close>\<close>

text \<open>
  The collaborators are read only: a signal has its asset list and its value
  \<^verbatim>\<open>signal(asset, lookback)\<close>; the collection has the warmup counter; the universe answers
  \<^verbatim>\<open>get_assets(dt)\<close>. Their calls are taken to return. The data handler is stored by the
  constructor and never read.
\<close>

record signal =
  sig_assets :: "asset list"
  sig_call :: "asset \<Rightarrow> int \<Rightarrow> real"

record signals_collection =
  gain6m :: signal
  gain5d :: signal
  warmup :: int

record alpha_model =
  signals :: signals_collection
  mom_lookback :: int
  mom_top_n :: int
  universe :: "timestamp \<Rightarrow> asset list"
  gain6m_lookback :: int
  gain5d_lookback :: int

text \<open>\<^verbatim>\<open>__init__\<close> stores its arguments and the two fixed lookbacks; it has no check.\<close>

definition init ::
  "signals_collection \<Rightarrow> int \<Rightarrow> int \<Rightarrow> (timestamp \<Rightarrow> asset list) \<Rightarrow> error + alpha_model" where
  "init sigs lookback top_n uni =
     Inr \<lparr>signals = sigs, mom_lookback = lookback, mom_top_n = top_n, universe = uni,
          gain6m_lookback = 126, gain5d_lookback = 5\<rparr>"

definition all_6m :: "alpha_model \<Rightarrow> (asset \<times> real) list" where
  "all_6m m =
     dict_comp (\<lambda>a. sig_call (gain6m (signals m)) a (gain6m_lookback m))
       (sig_assets (gain6m (signals m)))"

definition all_5d :: "alpha_model \<Rightarrow> (asset \<times> real) list" where
  "all_5d m =
     dict_comp (\<lambda>a. sig_call (gain5d (signals m)) a (gain5d_lookback m))
       (sig_assets (gain5d (signals m)))"

definition heat :: "alpha_model \<Rightarrow> asset list" where
  "heat m = map fst (py_sorted snd True (all_6m m))"

definition chill :: "alpha_model \<Rightarrow> asset list" where
  "chill m = map fst (py_sorted snd False (all_5d m))"

text \<open>\<^verbatim>\<open>{sym: rank for sym, rank in zip(xs, list(range(1, len(xs)+1)))}\<close>\<close>

definition rankmap :: "asset list \<Rightarrow> (asset \<times> int) list" where
  "rankmap xs = dict_of_pairs (zip xs (map int [1 ..< length xs + 1]))"

definition heatmap :: "alpha_model \<Rightarrow> (asset \<times> int) list" where
  "heatmap m = rankmap (heat m)"

definition chillmap :: "alpha_model \<Rightarrow> (asset \<times> int) list" where
  "chillmap m = rankmap (chill m)"

definition heatwt :: real where
  "heatwt = 0.5"

text \<open>
  The value \<^verbatim>\<open>heatwt * heatmap[sym] + (1-heatwt)*chillmap[sym]\<close>; either lookup may
  raise.
\<close>

definition dbtrx_score ::
  "(asset \<times> int) list \<Rightarrow> (asset \<times> int) list \<Rightarrow> asset \<Rightarrow> error + real" where
  "dbtrx_score hm cm symb =
     (case dict_get hm symb of
        Inl e \<Rightarrow> Inl e
      | Inr h \<Rightarrow>
          (case dict_get cm symb of
             Inl e \<Rightarrow> Inl e
           | Inr c \<Rightarrow> Inr (heatwt * real_of_int h + (1 - heatwt) * real_of_int c)))"

text \<open>The comprehension that builds \<^verbatim>\<open>dbtrxmap\<close>, one symbol of \<^verbatim>\<open>heat\<close> at a time.\<close>

fun dbtrx_comp ::
  "(asset \<times> int) list \<Rightarrow> (asset \<times> int) list \<Rightarrow> asset list \<Rightarrow> (asset \<times> real) list
     \<Rightarrow> error + (asset \<times> real) list" where
  "dbtrx_comp hm cm [] d = Inr d"
| "dbtrx_comp hm cm (symb # symbs) d =
     (case dbtrx_score hm cm symb of
        Inl e \<Rightarrow> Inl e
      | Inr v \<Rightarrow> dbtrx_comp hm cm symbs (dict_set d symb v))"

definition dbtrxmap :: "alpha_model \<Rightarrow> error + (asset \<times> real) list" where
  "dbtrxmap m = dbtrx_comp (heatmap m) (chillmap m) (heat m) []"

definition dbtrxlist :: "(asset \<times> real) list \<Rightarrow> asset list" where
  "dbtrxlist d = map fst (py_sorted snd False d)"

definition dbtransaction_asset :: "alpha_model \<Rightarrow> timestamp \<Rightarrow> error + asset list" where
  "dbtransaction_asset m dt =
     (if sig_assets (gain6m (signals m)) \<noteq> sig_assets (gain5d (signals m))
      then Inl AssertionError
      else (case dbtrxmap m of
              Inl e \<Rightarrow> Inl e
            | Inr d \<Rightarrow> Inr (py_slice_to (dbtrxlist d) (mom_top_n m))))"

text \<open>
  The loop of \<^verbatim>\<open>_generate_signals\<close>: the quotient \<^verbatim>\<open>1.0 / self.mom_top_n\<close> is evaluated
  once for every selected asset, and raises on a zero divisor.
\<close>

fun assign_weights ::
  "int \<Rightarrow> asset list \<Rightarrow> (asset \<times> real) list \<Rightarrow> error + (asset \<times> real) list" where
  "assign_weights n [] w = Inr w"
| "assign_weights n (a # as) w =
     (if n = 0 then Inl ZeroDivisionError
      else assign_weights n as (dict_set w a (1 / real_of_int n)))"

definition generate_signals ::
  "alpha_model \<Rightarrow> timestamp \<Rightarrow> (asset \<times> real) list \<Rightarrow> error + (asset \<times> real) list" where
  "generate_signals m dt weights =
     (case dbtransaction_asset m dt of
        Inl e \<Rightarrow> Inl e
      | Inr top_assets \<Rightarrow> assign_weights (mom_top_n m) top_assets weights)"

text \<open>\<^verbatim>\<open>__call__\<close>\<close>

definition call :: "alpha_model \<Rightarrow> timestamp \<Rightarrow> error + (asset \<times> real) list" where
  "call m dt =
     (let assets = universe m dt;
          weights = dict_comp (\<lambda>a. 0) assets
      in if mom_lookback m \<le> warmup (signals m)
         then generate_signals m dt weights
         else Inr weights)"

section \<open>Example states\<close>

text \<open>
  The four assets of the worked example, with the long-horizon values
  \<^verbatim>\<open>{A:10, B:5, C:8, D:1}\<close> and the short-horizon values
  \<^verbatim>\<open>{A:0.1, B:-0.2, C:0.05, D:-0.3}\<close>; a state is built from the two signals' asset
  lists, the universe's answer, the warmup counter, the lookback and the top-N count.
\<close>

definition ex_heat :: "asset \<Rightarrow> int \<Rightarrow> real" where
  "ex_heat a lb =
     (if a = ''A'' then 10 else if a = ''B'' then 5 else if a = ''C'' then 8 else 1)"

definition ex_chill :: "asset \<Rightarrow> int \<Rightarrow> real" where
  "ex_chill a lb =
     (if a = ''A'' then 1 / 10 else if a = ''B'' then - (2 / 10)
      else if a = ''C'' then 5 / 100 else - (3 / 10))"

definition ex_universe :: "asset list \<Rightarrow> timestamp \<Rightarrow> asset list" where
  "ex_universe uni dt = uni"

definition ex_signals :: "asset list \<Rightarrow> asset list \<Rightarrow> int \<Rightarrow> signals_collection" where
  "ex_signals a6 a5 wu =
     \<lparr>gain6m = \<lparr>sig_assets = a6, sig_call = ex_heat\<rparr>,
      gain5d = \<lparr>sig_assets = a5, sig_call = ex_chill\<rparr>,
      warmup = wu\<rparr>"

definition ex_model ::
  "asset list \<Rightarrow> asset list \<Rightarrow> asset list \<Rightarrow> int \<Rightarrow> int \<Rightarrow> int \<Rightarrow> alpha_model" where
  "ex_model a6 a5 uni wu lb n =
     \<lparr>signals = ex_signals a6 a5 wu,
      mom_lookback = lb, mom_top_n = n, universe = ex_universe uni,
      gain6m_lookback = 126, gain5d_lookback = 5\<rparr>"

definition abcd :: "asset list" where
  "abcd = [''A'', ''B'', ''C'', ''D'']"

text \<open>The gate closed (warmup 12 below the lookback 126).\<close>

definition ex_inert :: alpha_model where
  "ex_inert = ex_model abcd abcd abcd 12 126 2"


text \<open>
  Further states: a signal asset outside the universe; a negative top-N count; the worked
  example with \<open>topN = 2\<close>; a top-N count of zero; the two signals listing the same assets in
  a different order; the two signals listing different assets.
\<close>

definition ex_stray :: alpha_model where
  "ex_stray = ex_model [''B''] [''B''] [''A''] 126 126 1"


definition ex_top2 :: alpha_model where
  "ex_top2 = ex_model abcd abcd abcd 126 126 2"

definition ex_zero :: alpha_model where
  "ex_zero = ex_model abcd abcd abcd 126 126 0"

definition ex_swapped :: alpha_model where
  "ex_swapped = ex_model [''A'', ''B''] [''B'', ''A''] abcd 126 126 2"

definition ex_differ :: alpha_model where
  "ex_differ = ex_model [''A'', ''B''] [''A'', ''C''] abcd 126 126 2"

section \<open>The monthly rebalance calendar of \<^verbatim>\<open>rebalance/monthly.py\<close>\<close>

text \<open>
  \<^verbatim>\<open>MonthlyRebalance\<close> is three calls into pandas: \<^verbatim>\<open>pd.date_range(..., freq='BMS')\<close>,
  the addition of \<^verbatim>\<open>pd.offsets.BDay(monthday)\<close> and \<^verbatim>\<open>pd.Timestamp("%s %s" % (date, time),
  tz=pytz.utc)\<close>. pandas is not code of the repository, so the three calls are parameters of
  the embedding. A date is a day number (days since 1970-01-01), a timestamp a number of
  seconds since the epoch; the time of day that \<^verbatim>\<open>start_date\<close> and \<^verbatim>\<open>end_date\<close> may carry
  and negative offsets are not part of the model.
\<close>

type_synonym date = int

record pandas =
  date_range_BMS :: "date \<Rightarrow> date \<Rightarrow> date list"
  add_BDay :: "nat \<Rightarrow> date \<Rightarrow> date"
  timestamp_utc :: "date \<Rightarrow> string \<Rightarrow> timestamp"

record monthly_rebalance =
  start_date :: date
  end_date :: date
  day_of_month :: nat
  pre_market_time :: string
  rebalances :: "timestamp list"

text \<open>\<^verbatim>\<open>_set_market_time\<close>\<close>

definition set_market_time :: "bool \<Rightarrow> string" where
  "set_market_time pre_market = (if pre_market then ''14:30:00'' else ''21:00:00'')"

text \<open>\<^verbatim>\<open>_generate_rebalances\<close>: the date range, the shifted dates, the timestamps.\<close>

definition generate_rebalances ::
  "pandas \<Rightarrow> date \<Rightarrow> date \<Rightarrow> nat \<Rightarrow> string \<Rightarrow> timestamp list" where
  "generate_rebalances pd start end_d offset tm =
     (let rebalance_dates = date_range_BMS pd start end_d;
          rebalance_dates = map (\<lambda>x. add_BDay pd offset x) rebalance_dates;
          rebalance_times = map (\<lambda>date. timestamp_utc pd date tm) rebalance_dates
      in rebalance_times)"

text \<open>\<^verbatim>\<open>__init__\<close>\<close>

definition monthly_init ::
  "pandas \<Rightarrow> date \<Rightarrow> date \<Rightarrow> nat \<Rightarrow> bool \<Rightarrow> monthly_rebalance" where
  "monthly_init pd start end_d monthday pre_market =
     (let tm = set_market_time pre_market
      in \<lparr>start_date = start, end_date = end_d, day_of_month = monthday,
          pre_market_time = tm,
          rebalances = generate_rebalances pd start end_d monthday tm\<rparr>)"

subsection \<open>The calendar behind the three pandas calls\<close>

text \<open>
  Modelled from the spec: the business-day and month-boundary arithmetic that the source
  leaves to pandas (\<^verbatim>\<open>date_range\<close> with \<^verbatim>\<open>freq='BMS'\<close>, \<^verbatim>\<open>BDay\<close>, \<^verbatim>\<open>Timestamp\<close>), which
  the specification asks to be an explicit weekend-aware date-stepping routine. The months of
  the proleptic Gregorian calendar are numbered \<open>12 * year + (month - 1)\<close>;
  \<open>first_of_month k\<close> is the day number of the first day of month \<open>k\<close>, computed with the
  day counts of Python's \<^verbatim>\<open>date.toordinal\<close> (719163 is the ordinal of 1970-01-01). Weekdays
  count from Monday = 0; 1970-01-01 was a Thursday; business days are Monday to Friday.
\<close>

text \<open>Modelled from the spec: the leap years of the Gregorian calendar.\<close>

definition is_leap :: "int \<Rightarrow> bool" where
  "is_leap y = (y mod 4 = 0 \<and> (y mod 100 \<noteq> 0 \<or> y mod 400 = 0))"

text \<open>Modelled from the spec: the days before the first of January of a year.\<close>

definition days_before_year :: "int \<Rightarrow> int" where
  "days_before_year y = (y - 1) * 365 + (y - 1) div 4 - (y - 1) div 100 + (y - 1) div 400"

text \<open>Modelled from the spec: the days of a year before the first of month \<open>m\<close> (1 to 12).\<close>

definition days_before_month :: "int \<Rightarrow> int \<Rightarrow> int" where
  "days_before_month y m =
     [0, 31, 59, 90, 120, 151, 181, 212, 243, 273, 304, 334] ! nat (m - 1) +
     (if 2 < m \<and> is_leap y then 1 else 0)"

text \<open>Modelled from the spec: the day number of the first day of month \<open>k\<close>.\<close>

definition first_of_month :: "int \<Rightarrow> date" where
  "first_of_month k =
     days_before_year (k div 12) + days_before_month (k div 12) (k mod 12 + 1) + 1 - 719163"

text \<open>Modelled from the spec: the day of the week, Monday = 0.\<close>

definition weekday :: "date \<Rightarrow> int" where
  "weekday d = (d + 3) mod 7"

text \<open>Modelled from the spec: a business day is a day from Monday to Friday.\<close>

definition is_bday :: "date \<Rightarrow> bool" where
  "is_bday d = (weekday d < 5)"

text \<open>
  Modelled from the spec: the anchor of a month, "the first business day of [the] calendar
  month" (what pandas calls the business month start): the first of the month, or the Monday
  after it when it falls on a weekend.
\<close>

definition first_bday_of_month :: "int \<Rightarrow> date" where
  "first_bday_of_month k =
     (let f = first_of_month k; w = weekday f
      in if w = 5 then f + 2 else if w = 6 then f + 1 else f)"

text \<open>
  Modelled from the spec: one step of "shift each anchor forward by offsetBusinessDays
  business days", the next business day after a day; \<open>0\<close> steps are no shift, and a large
  offset rolls into the following month.
\<close>

definition next_bday :: "date \<Rightarrow> date" where
  "next_bday d =
     (let w = weekday d in if w = 4 then d + 3 else if w = 5 then d + 2 else d + 1)"

text \<open>Modelled from the spec: the shift by \<open>n\<close> business days, pandas' \<^verbatim>\<open>x + BDay(n)\<close>.\<close>

definition spec_add_BDay :: "nat \<Rightarrow> date \<Rightarrow> date" where
  "spec_add_BDay n d = (next_bday ^^ n) d"

text \<open>Modelled from the spec: the value of a decimal digit.\<close>

definition digit_val :: "char \<Rightarrow> int" where
  "digit_val c = int (of_char c) - 48"

text \<open>Modelled from the spec: the seconds of the day written \<^verbatim>\<open>HH:MM:SS\<close>.\<close>

fun time_of_day :: "string \<Rightarrow> int" where
  "time_of_day [h1, h2, c1, m1, m2, c2, s1, s2] =
     ((10 * digit_val h1 + digit_val h2) * 60 + (10 * digit_val m1 + digit_val m2)) * 60 +
       (10 * digit_val s1 + digit_val s2)"
| "time_of_day s = 0"

text \<open>
  Modelled from the spec: pandas' \<^verbatim>\<open>Timestamp("%s %s" % (date, time), tz=pytz.utc)\<close>, the
  day's midnight plus the time of day.
\<close>

definition spec_timestamp_utc :: "date \<Rightarrow> string \<Rightarrow> timestamp" where
  "spec_timestamp_utc d tm = d * 86400 + time_of_day tm"

subsection \<open>The month of a day\<close>

text \<open>
  The month search below terminates because every month has at least 28 days; that is
  proved first, from the day counts.
\<close>

lemma div_step:
  fixes y n :: int
  assumes "0 < n"
  shows "y div n - (y - 1) div n = (if y mod n = 0 then 1 else 0)"
proof (cases "y mod n = 0")
  case True
  have "y - 1 = n * (y div n - 1) + (n - 1)"
    using True mult_div_mod_eq [of n y] by (simp add: algebra_simps)
  then have "(y - 1) div n = y div n - 1"
    by (rule int_div_pos_eq) (use assms in simp_all)
  then show ?thesis
    using True by simp
next
  case False
  have r: "0 \<le> y mod n" "y mod n < n"
    using assms by simp_all
  have "y - 1 = n * (y div n) + (y mod n - 1)"
    using mult_div_mod_eq [of n y] by (simp add: algebra_simps)
  then have "(y - 1) div n = y div n"
    by (rule int_div_pos_eq) (use r False in simp_all)
  then show ?thesis
    using False by simp
qed

lemma leap_mods:
  fixes y :: int
  shows "y mod 100 = 0 \<Longrightarrow> y mod 4 = 0" and "y mod 400 = 0 \<Longrightarrow> y mod 100 = 0"
proof -
  have "y mod 100 mod 4 = y mod 4"
    by (rule mod_mod_cancel) simp
  then show "y mod 100 = 0 \<Longrightarrow> y mod 4 = 0"
    by simp
  have "y mod 400 mod 100 = y mod 100"
    by (rule mod_mod_cancel) simp
  then show "y mod 400 = 0 \<Longrightarrow> y mod 100 = 0"
    by simp
qed

lemma year_length:
  "days_before_year (y + 1) - days_before_year y = (if is_leap y then 366 else 365)"
proof -
  have 4: "y div 4 - (y - 1) div 4 = (if y mod 4 = 0 then 1 else 0)"
    by (rule div_step) simp
  have 100: "y div 100 - (y - 1) div 100 = (if y mod 100 = 0 then 1 else 0)"
    by (rule div_step) simp
  have 400: "y div 400 - (y - 1) div 400 = (if y mod 400 = 0 then 1 else 0)"
    by (rule div_step) simp
  have "days_before_year (y + 1) - days_before_year y =
      365 + (y div 4 - (y - 1) div 4) - (y div 100 - (y - 1) div 100) +
        (y div 400 - (y - 1) div 400)"
    by (simp add: days_before_year_def algebra_simps)
  then have eq: "days_before_year (y + 1) - days_before_year y =
      365 + (if y mod 4 = 0 then 1 else 0) - (if y mod 100 = 0 then 1 else 0) +
        (if y mod 400 = 0 then 1 else 0)"
    by (simp only: 4 100 400)
  show ?thesis
  proof (cases "y mod 400 = 0")
    case True
    then have "y mod 100 = 0"
      by (rule leap_mods(2))
    moreover from this have "y mod 4 = 0"
      by (rule leap_mods(1))
    ultimately show ?thesis
      using eq True by (simp add: is_leap_def)
  next
    case n400: False
    show ?thesis
    proof (cases "y mod 100 = 0")
      case True
      then have "y mod 4 = 0"
        by (rule leap_mods(1))
      then show ?thesis
        using eq True n400 by (simp add: is_leap_def)
    next
      case False
      then show ?thesis
        using eq n400 by (simp add: is_leap_def)
    qed
  qed
qed

lemma twelve:
  "0 \<le> (m::int) \<Longrightarrow> m < 12 \<Longrightarrow>
     m = 0 \<or> m = 1 \<or> m = 2 \<or> m = 3 \<or> m = 4 \<or> m = 5 \<or> m = 6 \<or> m = 7 \<or> m = 8 \<or>
     m = 9 \<or> m = 10 \<or> m = 11"
  by presburger

lemma month_length: "28 \<le> first_of_month (k + 1) - first_of_month k"
proof -
  define y where "y = k div 12"
  define m where "m = k mod 12"
  have m: "0 \<le> m" "m < 12" by (simp_all add: m_def)
  have k: "k = 12 * y + m" by (simp add: y_def m_def)
  have kd: "k div 12 = y" "k mod 12 = m"
    by (simp_all add: y_def m_def)
  show ?thesis
  proof (cases "m = 11")
    case True
    have "k + 1 = 12 * (y + 1) + 0"
      using True k by simp
    then have d: "(k + 1) div 12 = y + 1" "(k + 1) mod 12 = 0"
      using int_div_pos_eq [of "k + 1" 12 "y + 1" 0] int_mod_pos_eq [of "k + 1" 12 "y + 1" 0]
      by simp_all
    show ?thesis
      unfolding first_of_month_def d kd True using year_length [of y]
      by (simp add: days_before_month_def split: if_splits)
  next
    case False
    have "k + 1 = 12 * y + (m + 1)"
      using k by simp
    moreover have "0 \<le> m + 1" "m + 1 < 12"
      using m False by simp_all
    ultimately have d: "(k + 1) div 12 = y" "(k + 1) mod 12 = m + 1"
      using int_div_pos_eq [of "k + 1" 12 y "m + 1"] int_mod_pos_eq [of "k + 1" 12 y "m + 1"]
      by simp_all
    have "m = 0 \<or> m = 1 \<or> m = 2 \<or> m = 3 \<or> m = 4 \<or> m = 5 \<or> m = 6 \<or> m = 7 \<or> m = 8 \<or>
      m = 9 \<or> m = 10"
      using twelve [OF m] False by simp
    then show ?thesis
      unfolding first_of_month_def d kd
      by (elim disjE) (simp_all add: days_before_month_def)
  qed
qed

lemma first_of_month_step: "first_of_month (k - 1) < first_of_month k"
  using month_length [of "k - 1"] by simp

lemma first_of_month_step': "first_of_month k < first_of_month (k + 1)"
  using month_length [of k] by simp

text \<open>
  Modelled from the spec: the calendar month a day lies in, needed to "enumerate ... every
  calendar month within [start, end]". From an estimate (4800 months are 146097 days; month
  23640 is January 1970) the search walks down to a month that starts on or before the day,
  then up to the month that contains it. First the walk down.
\<close>

function month_down :: "int \<Rightarrow> date \<Rightarrow> int" where
  "month_down k d = (if first_of_month k \<le> d then k else month_down (k - 1) d)"
  by pat_completeness auto
termination
proof (relation "measure (\<lambda>(k, d). nat (first_of_month k - d))")
  show "wf (measure (\<lambda>(k, d). nat (first_of_month k - d)))"
    by simp
next
  fix k :: int and d :: date
  assume "\<not> first_of_month k \<le> d"
  then show "((k - 1, d), (k, d)) \<in> measure (\<lambda>(k, d). nat (first_of_month k - d))"
    using first_of_month_step [of k] by simp
qed

text \<open>Modelled from the spec: the walk up to the month that contains the day.\<close>

function month_up :: "int \<Rightarrow> date \<Rightarrow> int" where
  "month_up k d = (if d < first_of_month (k + 1) then k else month_up (k + 1) d)"
  by pat_completeness auto
termination
proof (relation "measure (\<lambda>(k, d). nat (d - first_of_month k))")
  show "wf (measure (\<lambda>(k, d). nat (d - first_of_month k)))"
    by simp
next
  fix k :: int and d :: date
  assume "\<not> d < first_of_month (k + 1)"
  then show "((k + 1, d), (k, d)) \<in> measure (\<lambda>(k, d). nat (d - first_of_month k))"
    using first_of_month_step' [of k] by simp
qed

declare month_down.simps [simp del] month_up.simps [simp del]

text \<open>Modelled from the spec: the calendar month of a day.\<close>

definition month_of :: "date \<Rightarrow> int" where
  "month_of d = month_up (month_down (23640 + (d * 4800) div 146097) d) d"

text \<open>
  Modelled from the spec: pandas' \<^verbatim>\<open>date_range(start, end, freq='BMS')\<close>, "enumerate the
  first business day of every calendar month within [start, end]": the anchors of the months
  from the month of \<open>start\<close> to the month of \<open>end\<close>, those kept that lie in the range.
\<close>

definition spec_date_range_BMS :: "date \<Rightarrow> date \<Rightarrow> date list" where
  "spec_date_range_BMS s e =
     filter (\<lambda>a. s \<le> a \<and> a \<le> e) (map first_bday_of_month [month_of s .. month_of e])"

text \<open>Modelled from the spec: the three pandas calls together.\<close>

definition spec_pandas :: pandas where
  "spec_pandas =
     \<lparr>date_range_BMS = spec_date_range_BMS, add_BDay = spec_add_BDay,
      timestamp_utc = spec_timestamp_utc\<rparr>"

section \<open>Dictionaries\<close>

lemmas model_defs =
  call_def generate_signals_def dbtransaction_asset_def dbtrxmap_def dbtrxlist_def
  dbtrx_score_def heatmap_def chillmap_def rankmap_def heat_def chill_def all_6m_def all_5d_def
  heatwt_def dict_comp_def dict_of_pairs_def dict_get_def py_sorted_def py_slice_to_def

lemmas example_defs =
  ex_model_def ex_signals_def ex_universe_def abcd_def ex_heat_def ex_chill_def

lemma map_of_dict_set: "map_of (dict_set d k v) = (map_of d)(k \<mapsto> v)"
  by (induction d) auto

lemma map_fst_dict_set:
  "map fst (dict_set d k v) = (if k \<in> set (map fst d) then map fst d else map fst d @ [k])"
proof (induction d)
  case Nil
  then show ?case by simp
next
  case (Cons p d)
  obtain k' v' where p: "p = (k', v')" by (cases p)
  show ?case
  proof (cases "k' = k")
    case True
    then show ?thesis by (simp add: p)
  next
    case False
    then show ?thesis using Cons.IH by (simp add: p)
  qed
qed

lemma keys_dict_set: "fst ` set (dict_set d k v) = insert k (fst ` set d)"
proof -
  have "set (map fst (dict_set d k v)) = insert k (set (map fst d))"
    unfolding map_fst_dict_set by (simp add: insert_absorb)
  then show ?thesis by simp
qed

lemma distinct_dict_set:
  "distinct (map fst d) \<Longrightarrow> distinct (map fst (dict_set d k v))"
  unfolding map_fst_dict_set by simp

lemma values_dict_set: "set (map snd (dict_set d k v)) \<subseteq> insert v (set (map snd d))"
proof (induction d)
  case Nil
  then show ?case by simp
next
  case (Cons p d)
  obtain k' v' where p: "p = (k', v')" by (cases p)
  show ?case
  proof (cases "k' = k")
    case True
    then show ?thesis by (auto simp: p)
  next
    case False
    then show ?thesis using Cons.IH by (auto simp: p)
  qed
qed

lemma dict_set_const:
  "snd ` set d \<subseteq> {c} \<Longrightarrow> snd ` set (dict_set d k c) \<subseteq> {c}"
proof -
  assume "snd ` set d \<subseteq> {c}"
  then have "set (map snd d) \<subseteq> {c}" by simp
  with values_dict_set [of d k c] have "set (map snd (dict_set d k c)) \<subseteq> {c}"
    by blast
  then show ?thesis by simp
qed

lemma fold_dict_set_keys:
  "fst ` set (fold (\<lambda>k d. dict_set d k (f k)) ks d0) = fst ` set d0 \<union> set ks"
  by (induction ks arbitrary: d0) (auto simp: keys_dict_set)

lemma fold_dict_set_distinct:
  "distinct (map fst d0) \<Longrightarrow> distinct (map fst (fold (\<lambda>k d. dict_set d k (f k)) ks d0))"
  by (induction ks arbitrary: d0) (auto simp: distinct_dict_set)

lemma fold_dict_set_const:
  "snd ` set d0 \<subseteq> {c} \<Longrightarrow> snd ` set (fold (\<lambda>k d. dict_set d k c) ks d0) \<subseteq> {c}"
proof (induction ks arbitrary: d0)
  case Nil
  then show ?case by simp
next
  case (Cons k ks)
  have "snd ` set (dict_set d0 k c) \<subseteq> {c}"
    using Cons.prems by (rule dict_set_const)
  then show ?case
    using Cons.IH by simp
qed

lemma keys_dict_comp: "fst ` set (dict_comp f ks) = set ks"
  by (simp add: dict_comp_def fold_dict_set_keys)

lemma distinct_dict_comp: "distinct (map fst (dict_comp f ks))"
  by (simp add: dict_comp_def fold_dict_set_distinct)

lemma values_dict_comp_const: "snd ` set (dict_comp (\<lambda>a. c) ks) \<subseteq> {c}"
  unfolding dict_comp_def by (rule fold_dict_set_const) simp

lemma map_of_dict_comp_const:
  "map_of (dict_comp (\<lambda>a. c) ks) a = (if a \<in> set ks then Some c else None)"
proof (cases "a \<in> set ks")
  case True
  then have "a \<in> fst ` set (dict_comp (\<lambda>a. c) ks)"
    by (simp add: keys_dict_comp)
  then obtain v where v: "(a, v) \<in> set (dict_comp (\<lambda>a. c) ks)"
    by force
  then have "v = c"
    using values_dict_comp_const [of c ks] by force
  with v have "map_of (dict_comp (\<lambda>a. c) ks) a = Some c"
    by (simp add: distinct_dict_comp)
  with True show ?thesis by simp
next
  case False
  then have "a \<notin> fst ` set (dict_comp (\<lambda>a. c) ks)"
    by (simp add: keys_dict_comp)
  then have "map_of (dict_comp (\<lambda>a. c) ks) a = None"
    by (simp add: map_of_eq_None_iff)
  with False show ?thesis by simp
qed

section \<open>The warmup gate\<close>

text \<open>
  C1. Whenever the warmup counter of the signals is strictly below the configured lookback,
  \<^verbatim>\<open>__call__\<close> returns the dictionary built from the universe members at \<open>dt\<close> with every
  value \<open>0.0\<close>: its keys are exactly the members, each member maps to \<open>0\<close>, and nothing
  else is stored. Replacing the two signals by any others (with the same warmup counter)
  leaves the result unchanged. The evaluation is a function of the state at the call, and the
  statement holds for every state \<open>m\<close>: the comparison is made again at every call, and
  whether an earlier call passed it plays no part.
\<close>

theorem call_warmup_gate:
  "warmup (signals m) < mom_lookback m \<Longrightarrow>
     call m dt = Inr (dict_comp (\<lambda>a. 0) (universe m dt)) \<and>
     fst ` set (dict_comp (\<lambda>a. 0 :: real) (universe m dt)) = set (universe m dt) \<and>
     snd ` set (dict_comp (\<lambda>a. 0 :: real) (universe m dt)) \<subseteq> {0} \<and>
     (\<forall>a. map_of (dict_comp (\<lambda>a. 0 :: real) (universe m dt)) a =
            (if a \<in> set (universe m dt) then Some 0 else None)) \<and>
     call (m\<lparr>signals := \<lparr>gain6m = g6, gain5d = g5, warmup = warmup (signals m)\<rparr>\<rparr>) dt =
       call m dt"
  by (simp add: call_def keys_dict_comp values_dict_comp_const map_of_dict_comp_const)

theorem call_warmup_gate_witness:
  "warmup (signals ex_inert) < mom_lookback ex_inert \<and>
   call ex_inert 0 = Inr [(''A'', 0), (''B'', 0), (''C'', 0), (''D'', 0)]"
  using call_warmup_gate [of ex_inert 0]
  by (simp add: ex_inert_def example_defs dict_comp_def)

section \<open>Rank maps and sorting\<close>

lemma dict_set_fresh: "k \<notin> set (map fst d) \<Longrightarrow> dict_set d k v = d @ [(k, v)]"
  by (induction d) auto

lemma fold_pairs_distinct:
  "distinct (map fst (d0 @ ps)) \<Longrightarrow>
     fold (\<lambda>p d. dict_set d (fst p) (snd p)) ps d0 = d0 @ ps"
proof (induction ps arbitrary: d0)
  case Nil
  then show ?case by simp
next
  case (Cons p ps)
  have fresh: "fst p \<notin> set (map fst d0)"
    using Cons.prems by auto
  have "distinct (map fst ((d0 @ [p]) @ ps))"
    using Cons.prems by simp
  then have "fold (\<lambda>p d. dict_set d (fst p) (snd p)) ps (d0 @ [p]) = (d0 @ [p]) @ ps"
    by (rule Cons.IH)
  then show ?case
    using fresh by (simp add: dict_set_fresh)
qed

lemma dict_of_pairs_distinct: "distinct (map fst ps) \<Longrightarrow> dict_of_pairs ps = ps"
  using fold_pairs_distinct [of "[]" ps] by (simp add: dict_of_pairs_def)

lemma rankmap_distinct:
  "distinct xs \<Longrightarrow> rankmap xs = zip xs (map int [1 ..< length xs + 1])"
  unfolding rankmap_def by (rule dict_of_pairs_distinct) simp

lemma keys_rankmap: "distinct xs \<Longrightarrow> fst ` set (rankmap xs) = set xs"
proof -
  assume "distinct xs"
  moreover have "length (map int [1 ..< length xs + 1]) = length xs"
    by (simp del: upt_Suc)
  ultimately have "map fst (rankmap xs) = xs"
    by (simp only: rankmap_distinct map_fst_zip)
  then have "set (map fst (rankmap xs)) = set xs"
    by simp
  then show ?thesis by simp
qed

lemma ranks_rankmap: "distinct xs \<Longrightarrow> map snd (rankmap xs) = map int [1 ..< length xs + 1]"
proof -
  assume "distinct xs"
  moreover have "length xs = length (map int [1 ..< length xs + 1])"
    by (simp del: upt_Suc)
  ultimately show ?thesis
    by (simp only: rankmap_distinct map_snd_zip)
qed

lemma dict_get_in_keys: "k \<in> fst ` set d \<Longrightarrow> \<exists>v. dict_get d k = Inr v \<and> (k, v) \<in> set d"
proof -
  assume "k \<in> fst ` set d"
  then obtain v where "map_of d k = Some v"
    by (metis map_of_eq_None_iff not_Some_eq)
  then show ?thesis
    by (auto simp: dict_get_def dest: map_of_SomeD)
qed

lemma distinct_map_fst_sort:
  "distinct (map fst (sort_key key xs)) = distinct (map fst xs)"
  by (simp add: distinct_map)

lemma distinct_keys_py_sorted:
  "distinct (map fst (py_sorted key r xs)) = distinct (map fst xs)"
  by (simp add: py_sorted_def distinct_map rev_map [symmetric] del: rev_map)

lemma set_py_sorted: "set (py_sorted key r xs) = set xs"
  by (simp add: py_sorted_def)

lemma length_py_sorted: "length (py_sorted key r xs) = length xs"
  by (simp add: py_sorted_def)

lemma distinct_heat: "distinct (heat m)"
  by (simp add: heat_def distinct_keys_py_sorted all_6m_def distinct_dict_comp)

lemma distinct_chill: "distinct (chill m)"
  by (simp add: chill_def distinct_keys_py_sorted all_5d_def distinct_dict_comp)

lemma set_heat: "set (heat m) = set (sig_assets (gain6m (signals m)))"
proof -
  have "set (heat m) = fst ` set (all_6m m)"
    by (simp add: heat_def set_py_sorted)
  then show ?thesis
    by (simp add: all_6m_def keys_dict_comp)
qed

lemma set_chill: "set (chill m) = set (sig_assets (gain5d (signals m)))"
proof -
  have "set (chill m) = fst ` set (all_5d m)"
    by (simp add: chill_def set_py_sorted)
  then show ?thesis
    by (simp add: all_5d_def keys_dict_comp)
qed



lemma map_of_fold_dict_set:
  "map_of (fold (\<lambda>k d. dict_set d k (f k)) ks d0) a =
     (if a \<in> set ks then Some (f a) else map_of d0 a)"
  by (induction ks arbitrary: d0) (simp_all add: map_of_dict_set)

lemma fold_dict_set_fresh:
  "distinct (map fst d0 @ ks) \<Longrightarrow>
     fold (\<lambda>k d. dict_set d k (f k)) ks d0 = d0 @ map (\<lambda>k. (k, f k)) ks"
proof (induction ks arbitrary: d0)
  case Nil
  then show ?case by simp
next
  case (Cons k ks)
  have fresh: "k \<notin> set (map fst d0)"
    using Cons.prems by auto
  have "distinct (map fst (d0 @ [(k, f k)]) @ ks)"
    using Cons.prems by simp
  then have "fold (\<lambda>k d. dict_set d k (f k)) ks (d0 @ [(k, f k)]) =
      (d0 @ [(k, f k)]) @ map (\<lambda>k. (k, f k)) ks"
    by (rule Cons.IH)
  then show ?case
    using fresh by (simp add: dict_set_fresh)
qed

lemma dict_comp_distinct: "distinct ks \<Longrightarrow> dict_comp f ks = map (\<lambda>k. (k, f k)) ks"
  using fold_dict_set_fresh [of "[]" ks f] by (simp add: dict_comp_def)

lemma map_of_dict_comp: "map_of (dict_comp f ks) a = (if a \<in> set ks then Some (f a) else None)"
  by (simp add: dict_comp_def map_of_fold_dict_set)

lemma dbtrx_comp_ok:
  "(\<And>s. s \<in> set syms \<Longrightarrow> dbtrx_score hm cm s = Inr (f s)) \<Longrightarrow>
     dbtrx_comp hm cm syms d = Inr (fold (\<lambda>k d. dict_set d k (f k)) syms d)"
  by (induction syms arbitrary: d) simp_all

lemma dbtrx_score_ok:
  "s \<in> fst ` set hm \<Longrightarrow> s \<in> fst ` set cm \<Longrightarrow>
     \<exists>h c. dict_get hm s = Inr h \<and> dict_get cm s = Inr c \<and> (s, h) \<in> set hm \<and> (s, c) \<in> set cm \<and>
       dbtrx_score hm cm s = Inr (heatwt * real_of_int h + (1 - heatwt) * real_of_int c)"
proof -
  assume "s \<in> fst ` set hm" "s \<in> fst ` set cm"
  then obtain h c where "dict_get hm s = Inr h \<and> (s, h) \<in> set hm" "dict_get cm s = Inr c \<and> (s, c) \<in> set cm"
    using dict_get_in_keys by meson
  then show ?thesis
    by (simp add: dbtrx_score_def)
qed


lemma dbtrxmap_ok:
  assumes "sig_assets (gain6m (signals m)) = sig_assets (gain5d (signals m))"
  shows "dbtrxmap m =
           Inr (map (\<lambda>s. (s, projr (dbtrx_score (heatmap m) (chillmap m) s))) (heat m))"
proof -
  let ?f = "\<lambda>s. projr (dbtrx_score (heatmap m) (chillmap m) s)"
  have score: "dbtrx_score (heatmap m) (chillmap m) s = Inr (?f s)" if "s \<in> set (heat m)" for s
  proof -
    have "s \<in> fst ` set (heatmap m)"
      using that by (simp add: heatmap_def keys_rankmap distinct_heat)
    moreover have "s \<in> fst ` set (chillmap m)"
      using that assms by (simp add: chillmap_def keys_rankmap distinct_chill set_chill set_heat)
    ultimately obtain v where "dbtrx_score (heatmap m) (chillmap m) s = Inr v"
      using dbtrx_score_ok by blast
    then show ?thesis by simp
  qed
  have "dbtrxmap m = Inr (fold (\<lambda>k d. dict_set d k (?f k)) (heat m) [])"
    unfolding dbtrxmap_def using score by (rule dbtrx_comp_ok)
  moreover have "fold (\<lambda>k d. dict_set d k (?f k)) (heat m) [] = [] @ map (\<lambda>k. (k, ?f k)) (heat m)"
    by (rule fold_dict_set_fresh) (simp add: distinct_heat)
  ultimately show ?thesis by simp
qed

lemma map_fst_scores: "map fst (map (\<lambda>s. (s, f s)) xs) = xs"
  by (induction xs) simp_all

lemma set_dbtrxlist: "set (dbtrxlist d) = fst ` set d"
  by (simp add: dbtrxlist_def set_py_sorted)

lemma distinct_dbtrxlist: "distinct (dbtrxlist d) = distinct (map fst d)"
  by (simp add: dbtrxlist_def distinct_keys_py_sorted)

lemma length_dbtrxlist: "length (dbtrxlist d) = length d"
  by (simp add: dbtrxlist_def length_py_sorted)

lemma set_py_slice_to: "set (py_slice_to xs n) \<subseteq> set xs"
  by (auto simp: py_slice_to_def dest: in_set_takeD)

lemma distinct_py_slice_to: "distinct xs \<Longrightarrow> distinct (py_slice_to xs n)"
  by (simp add: py_slice_to_def)

lemma py_slice_to_nonneg: "0 \<le> n \<Longrightarrow> py_slice_to xs n = take (nat n) xs"
  by (simp add: py_slice_to_def)

lemma py_slice_to_zero: "py_slice_to xs 0 = []"
  by (simp add: py_slice_to_def)

lemma assign_weights_ok:
  "n \<noteq> 0 \<Longrightarrow>
     assign_weights n sel w = Inr (fold (\<lambda>a d. dict_set d a (1 / real_of_int n)) sel w)"
  by (induction sel arbitrary: w) simp_all





section \<open>Running the evaluation\<close>

lemma assign_weights_sel:
  "n \<noteq> 0 \<or> sel = [] \<Longrightarrow>
     assign_weights n sel w = Inr (fold (\<lambda>a d. dict_set d a (1 / real_of_int n)) sel w)"
  by (cases "n = 0") (simp_all add: assign_weights_ok)

lemma dbtransaction_asset_ok:
  assumes "sig_assets (gain6m (signals m)) = sig_assets (gain5d (signals m))"
  shows "\<exists>scores. dbtrxmap m = Inr scores \<and> map fst scores = heat m \<and>
           dbtransaction_asset m dt = Inr (py_slice_to (dbtrxlist scores) (mom_top_n m))"
proof -
  let ?sc = "map (\<lambda>s. (s, projr (dbtrx_score (heatmap m) (chillmap m) s))) (heat m)"
  have 1: "dbtrxmap m = Inr ?sc"
    using assms by (rule dbtrxmap_ok)
  have 2: "map fst ?sc = heat m"
    by (rule map_fst_scores)
  have 3: "dbtransaction_asset m dt = Inr (py_slice_to (dbtrxlist ?sc) (mom_top_n m))"
    unfolding dbtransaction_asset_def using assms by (simp only: 1 if_False sum.case simp_thms)
  show ?thesis
    using 1 2 3 by blast
qed


lemma dbtransaction_asset_Inr:
  assumes "dbtransaction_asset m dt = Inr sel"
  shows "sig_assets (gain6m (signals m)) = sig_assets (gain5d (signals m))"
    and "\<exists>scores. dbtrxmap m = Inr scores \<and> sel = py_slice_to (dbtrxlist scores) (mom_top_n m)"
proof -
  show eq: "sig_assets (gain6m (signals m)) = sig_assets (gain5d (signals m))"
  proof (rule ccontr)
    assume "sig_assets (gain6m (signals m)) \<noteq> sig_assets (gain5d (signals m))"
    then have "dbtransaction_asset m dt = Inl AssertionError"
      by (simp add: dbtransaction_asset_def)
    with assms show False by simp
  qed
  obtain scores where sc: "dbtrxmap m = Inr scores"
    "dbtransaction_asset m dt = Inr (py_slice_to (dbtrxlist scores) (mom_top_n m))"
    using dbtransaction_asset_ok [OF eq] by blast
  have "sel = py_slice_to (dbtrxlist scores) (mom_top_n m)"
    using sc(2) assms by simp
  with sc(1) show "\<exists>scores. dbtrxmap m = Inr scores \<and> sel = py_slice_to (dbtrxlist scores) (mom_top_n m)"
    by blast
qed

lemma selected_nonzero:
  assumes "dbtransaction_asset m dt = Inr sel"
  shows "mom_top_n m \<noteq> 0 \<or> sel = []"
proof (cases "mom_top_n m = 0")
  case True
  obtain scores where "sel = py_slice_to (dbtrxlist scores) (mom_top_n m)"
    using dbtransaction_asset_Inr(2) [OF assms] by blast
  then have "sel = []"
    using True by (simp add: py_slice_to_zero)
  then show ?thesis by simp
next
  case False
  then show ?thesis by simp
qed

lemma call_active:
  assumes gate: "mom_lookback m \<le> warmup (signals m)"
    and sel: "dbtransaction_asset m dt = Inr sel"
  shows "call m dt =
           Inr (fold (\<lambda>a d. dict_set d a (1 / real_of_int (mom_top_n m))) sel
                  (dict_comp (\<lambda>a. 0) (universe m dt)))"
proof -
  have "call m dt = generate_signals m dt (dict_comp (\<lambda>a. 0) (universe m dt))"
    using gate by (simp add: call_def)
  also have "\<dots> = assign_weights (mom_top_n m) sel (dict_comp (\<lambda>a. 0) (universe m dt))"
    by (simp add: generate_signals_def sel)
  also have "\<dots> = Inr (fold (\<lambda>a d. dict_set d a (1 / real_of_int (mom_top_n m))) sel
                  (dict_comp (\<lambda>a. 0) (universe m dt)))"
    using selected_nonzero [OF sel] by (rule assign_weights_sel)
  finally show ?thesis .
qed

lemma selection_facts:
  assumes "dbtransaction_asset m dt = Inr sel"
  shows "distinct sel" and "set sel \<subseteq> set (sig_assets (gain6m (signals m)))"
    and "0 \<le> mom_top_n m \<Longrightarrow> int (length sel) \<le> mom_top_n m"
proof -
  have eq: "sig_assets (gain6m (signals m)) = sig_assets (gain5d (signals m))"
    using assms by (rule dbtransaction_asset_Inr(1))
  obtain scores where sc: "dbtrxmap m = Inr scores" "map fst scores = heat m"
    "dbtransaction_asset m dt = Inr (py_slice_to (dbtrxlist scores) (mom_top_n m))"
    using dbtransaction_asset_ok [OF eq] by blast
  have sel: "sel = py_slice_to (dbtrxlist scores) (mom_top_n m)"
    using sc(3) assms by simp
  have d: "distinct (dbtrxlist scores)"
    by (simp only: distinct_dbtrxlist sc(2) distinct_heat)
  show "distinct sel"
    unfolding sel using d by (rule distinct_py_slice_to)
  have "set (dbtrxlist scores) = set (map fst scores)"
    by (simp add: set_dbtrxlist)
  then have "set (dbtrxlist scores) = set (sig_assets (gain6m (signals m)))"
    by (simp only: sc(2) set_heat)
  then show "set sel \<subseteq> set (sig_assets (gain6m (signals m)))"
    unfolding sel using set_py_slice_to [of "dbtrxlist scores" "mom_top_n m"] by simp
  show "int (length sel) \<le> mom_top_n m" if "0 \<le> mom_top_n m"
    unfolding sel using that by (simp add: py_slice_to_nonneg)
qed

lemma sorted_py_sorted_asc: "sorted (map key (py_sorted key False xs))"
  by (simp add: py_sorted_def)

lemma sorted_py_sorted_desc: "sorted (rev (map key (py_sorted key True xs)))"
  by (simp add: py_sorted_def rev_map)

lemma py_sorted_stable:
  "filter (\<lambda>p. key p = v) (py_sorted key r xs) = filter (\<lambda>p. key p = v) xs"
proof (cases r)
  case True
  have "filter (\<lambda>p. key p = v) (rev (sort_key key (rev xs))) =
      rev (filter (\<lambda>p. key p = v) (sort_key key (rev xs)))"
    by (simp add: rev_filter)
  also have "\<dots> = rev (filter (\<lambda>p. key p = v) (rev xs))"
    by (simp only: sort_key_stable)
  also have "\<dots> = filter (\<lambda>p. key p = v) xs"
    by (simp add: rev_filter)
  finally show ?thesis
    using True by (simp add: py_sorted_def)
next
  case False
  then show ?thesis
    by (simp add: py_sorted_def sort_key_stable)
qed

lemma map_fst_rankmap: "distinct xs \<Longrightarrow> map fst (rankmap xs) = xs"
proof -
  assume "distinct xs"
  moreover have "length (map int [1 ..< length xs + 1]) = length xs"
    by (simp del: upt_Suc)
  ultimately show ?thesis
    by (simp only: rankmap_distinct map_fst_zip)
qed

lemma weights_of_selected:
  "a \<in> set sel \<Longrightarrow> map_of (fold (\<lambda>a d. dict_set d a v) sel w) a = Some v"
  using map_of_fold_dict_set [of "\<lambda>a. v" sel w a] by simp


lemma keys_weights:
  "fst ` set (fold (\<lambda>a d. dict_set d a v) sel w) = fst ` set w \<union> set sel"
  by (rule fold_dict_set_keys)


section \<open>Selection and weights\<close>




section \<open>The example states, evaluated\<close>

lemma ex_stray_call: "call ex_stray 0 = Inr [(''A'', 0), (''B'', 1)]"
  by (simp add: ex_stray_def model_defs example_defs)


lemma ex_top2_heatmap: "heatmap ex_top2 = [(''A'', 1), (''C'', 2), (''B'', 3), (''D'', 4)]"
  by (simp add: ex_top2_def model_defs example_defs)

lemma ex_top2_chillmap: "chillmap ex_top2 = [(''D'', 1), (''B'', 2), (''C'', 3), (''A'', 4)]"
  by (simp add: ex_top2_def model_defs example_defs)

lemma ex_top2_dbtrxmap:
  "dbtrxmap ex_top2 = Inr [(''A'', 5 / 2), (''C'', 5 / 2), (''B'', 5 / 2), (''D'', 5 / 2)]"
  by (simp add: ex_top2_def model_defs example_defs)

lemma ex_top2_selected: "dbtransaction_asset ex_top2 0 = Inr [''A'', ''C'']"
  by (simp add: ex_top2_def model_defs example_defs)

lemma ex_top2_call:
  "call ex_top2 0 = Inr [(''A'', 1 / 2), (''B'', 0), (''C'', 1 / 2), (''D'', 0)]"
  by (simp add: ex_top2_def model_defs example_defs)

lemma ex_zero_call: "call ex_zero 0 = Inr [(''A'', 0), (''B'', 0), (''C'', 0), (''D'', 0)]"
  by (simp add: ex_zero_def model_defs example_defs)

lemma ex_swapped_fails: "dbtransaction_asset ex_swapped 0 = Inl AssertionError"
  by (simp add: ex_swapped_def model_defs example_defs)

lemma ex_differ_fails: "dbtransaction_asset ex_differ 0 = Inl AssertionError"
  by (simp add: ex_differ_def model_defs example_defs)

section \<open>The returned weights\<close>




section \<open>Ranking and ties\<close>

text \<open>
  C4 (as amended). The rank maps pair the sorted symbols with the ranks \<open>1..K\<close> in sorted
  order (heat descending, chill ascending), and the sort is stable: entries with equal values
  keep the order they had in the list that was sorted. For the composite that list is the dict
  built by iterating \<^verbatim>\<open>heat\<close>, so tied composites stay in heat-rank order, not in the
  assets' original order. In the worked example the heat ranks are \<open>A:1, C:2, B:3, D:4\<close>, the
  chill ranks \<open>D:1, B:2, C:3, A:4\<close>, every composite is \<open>2.5\<close> in the order \<open>A, C, B, D\<close>,
  and \<open>topN = 2\<close> selects \<open>A\<close> then \<open>C\<close>, each weighted \<open>0.5\<close>.
\<close>

theorem ranking_stable_ties:
  "map fst (heatmap m) = heat m \<and>
   map snd (heatmap m) = map int [1 ..< length (heat m) + 1] \<and>
   map fst (chillmap m) = chill m \<and>
   map snd (chillmap m) = map int [1 ..< length (chill m) + 1] \<and>
   heat m = map fst (py_sorted snd True (all_6m m)) \<and>
   sorted (rev (map snd (py_sorted snd True (all_6m m)))) \<and>
   chill m = map fst (py_sorted snd False (all_5d m)) \<and>
   sorted (map snd (py_sorted snd False (all_5d m))) \<and>
   filter (\<lambda>p. snd p = v) (py_sorted snd r (d :: (asset \<times> real) list)) =
     filter (\<lambda>p. snd p = v) d \<and>
   heatmap ex_top2 = [(''A'', 1), (''C'', 2), (''B'', 3), (''D'', 4)] \<and>
   chillmap ex_top2 = [(''D'', 1), (''B'', 2), (''C'', 3), (''A'', 4)] \<and>
   dbtrxmap ex_top2 = Inr [(''A'', 5 / 2), (''C'', 5 / 2), (''B'', 5 / 2), (''D'', 5 / 2)] \<and>
   dbtransaction_asset ex_top2 0 = Inr [''A'', ''C''] \<and>
   call ex_top2 0 = Inr [(''A'', 1 / 2), (''B'', 0), (''C'', 1 / 2), (''D'', 0)]"
proof -
  have 1: "map fst (heatmap m) = heat m"
    unfolding heatmap_def using distinct_heat by (rule map_fst_rankmap)
  have 2: "map snd (heatmap m) = map int [1 ..< length (heat m) + 1]"
    unfolding heatmap_def using distinct_heat by (rule ranks_rankmap)
  have 3: "map fst (chillmap m) = chill m"
    unfolding chillmap_def using distinct_chill by (rule map_fst_rankmap)
  have 4: "map snd (chillmap m) = map int [1 ..< length (chill m) + 1]"
    unfolding chillmap_def using distinct_chill by (rule ranks_rankmap)
  have 5: "sorted (rev (map snd (py_sorted snd True (all_6m m))))"
    by (rule sorted_py_sorted_desc)
  have 6: "sorted (map snd (py_sorted snd False (all_5d m)))"
    by (rule sorted_py_sorted_asc)
  have 7: "filter (\<lambda>p. snd p = v) (py_sorted snd r d) = filter (\<lambda>p. snd p = v) d"
    by (rule py_sorted_stable)
  show ?thesis
    using 1 2 3 4 5 6 7 ex_top2_heatmap ex_top2_chillmap ex_top2_dbtrxmap ex_top2_selected
      ex_top2_call
    by (simp only: heat_def chill_def simp_thms)
qed

text \<open>
  The example of the specification names \<open>A\<close> then \<open>B\<close>, the first two in the assets'
  original order; the evaluation selects \<open>A\<close> and \<open>C\<close> and leaves \<open>B\<close> at \<open>0\<close>.
\<close>

theorem tie_selection_counterexample:
  "dbtrxmap ex_top2 = Inr [(''A'', 5 / 2), (''C'', 5 / 2), (''B'', 5 / 2), (''D'', 5 / 2)] \<and>
   dbtransaction_asset ex_top2 0 = Inr [''A'', ''C''] \<and>
   dbtransaction_asset ex_top2 0 \<noteq> Inr [''A'', ''B''] \<and>
   call ex_top2 0 = Inr [(''A'', 1 / 2), (''B'', 0), (''C'', 1 / 2), (''D'', 0)]"
  using ex_top2_dbtrxmap ex_top2_selected ex_top2_call by simp

section \<open>The assertion on the asset lists\<close>

lemma map_of_scores: "a \<in> set xs \<Longrightarrow> map_of (map (\<lambda>s. (s, f s)) xs) a = Some (f a)"
  by (induction xs) auto

text \<open>
  C5 (as amended). The blend is guarded by \<^verbatim>\<open>assert(assets6m == assets5d)\<close>, a comparison of
  the two lists. When the lists are equal the blend succeeds: the composite map has exactly
  the listed assets as keys and stores for each the weighted sum
  \<open>heatwt * heat rank + (1 - heatwt) * chill rank\<close>, and the selection is a slice of the sorted
  composite list. When the lists differ, and so in particular whenever the two asset sets
  differ, the evaluation fails with \<^verbatim>\<open>AssertionError\<close>.
\<close>

theorem blend_asset_lists:
  "(if sig_assets (gain6m (signals m)) = sig_assets (gain5d (signals m))
    then (\<exists>scores.
            dbtrxmap m = Inr scores \<and>
            fst ` set scores = set (sig_assets (gain6m (signals m))) \<and>
            (\<forall>a \<in> set (sig_assets (gain6m (signals m))).
               \<exists>h c. dict_get (heatmap m) a = Inr h \<and> dict_get (chillmap m) a = Inr c \<and>
                 map_of scores a =
                   Some (heatwt * real_of_int h + (1 - heatwt) * real_of_int c)) \<and>
            dbtransaction_asset m dt = Inr (py_slice_to (dbtrxlist scores) (mom_top_n m)))
    else dbtransaction_asset m dt = Inl AssertionError) \<and>
   (set (sig_assets (gain6m (signals m))) = set (sig_assets (gain5d (signals m))) \<or>
    dbtransaction_asset m dt = Inl AssertionError)"
proof (cases "sig_assets (gain6m (signals m)) = sig_assets (gain5d (signals m))")
  case False
  then have "dbtransaction_asset m dt = Inl AssertionError"
    by (simp add: dbtransaction_asset_def)
  then show ?thesis
    using False by simp
next
  case True
  let ?f = "\<lambda>s. projr (dbtrx_score (heatmap m) (chillmap m) s)"
  let ?sc = "map (\<lambda>s. (s, ?f s)) (heat m)"
  have sc: "dbtrxmap m = Inr ?sc"
    using True by (rule dbtrxmap_ok)
  have "map fst ?sc = heat m"
    by (rule map_fst_scores)
  then have "set (map fst ?sc) = set (sig_assets (gain6m (signals m)))"
    by (simp only: set_heat)
  moreover have "fst ` set ?sc = set (map fst ?sc)"
    by (simp only: set_map)
  ultimately have keys: "fst ` set ?sc = set (sig_assets (gain6m (signals m)))"
    by (rule back_subst [where P = "\<lambda>x. fst ` set ?sc = x", rotated])
  have run: "dbtransaction_asset m dt = Inr (py_slice_to (dbtrxlist ?sc) (mom_top_n m))"
    unfolding dbtransaction_asset_def using True by (simp only: sc if_False sum.case simp_thms)
  have blend: "\<forall>a \<in> set (sig_assets (gain6m (signals m))).
      \<exists>h c. dict_get (heatmap m) a = Inr h \<and> dict_get (chillmap m) a = Inr c \<and>
        map_of ?sc a = Some (heatwt * real_of_int h + (1 - heatwt) * real_of_int c)"
  proof
    fix a assume a: "a \<in> set (sig_assets (gain6m (signals m)))"
    then have ah: "a \<in> set (heat m)"
      by (simp add: set_heat)
    have "a \<in> fst ` set (heatmap m)"
      using ah by (simp add: heatmap_def keys_rankmap distinct_heat)
    moreover have "a \<in> fst ` set (chillmap m)"
      using a True by (simp add: chillmap_def keys_rankmap distinct_chill set_chill)
    ultimately obtain h c where hc: "dict_get (heatmap m) a = Inr h" "dict_get (chillmap m) a = Inr c"
      "dbtrx_score (heatmap m) (chillmap m) a =
         Inr (heatwt * real_of_int h + (1 - heatwt) * real_of_int c)"
      using dbtrx_score_ok [of a "heatmap m" "chillmap m"] by blast
    have "map_of ?sc a = Some (?f a)"
      using ah by (rule map_of_scores)
    then have "map_of ?sc a = Some (heatwt * real_of_int h + (1 - heatwt) * real_of_int c)"
      using hc(3) by simp
    then show "\<exists>h c. dict_get (heatmap m) a = Inr h \<and> dict_get (chillmap m) a = Inr c \<and>
        map_of ?sc a = Some (heatwt * real_of_int h + (1 - heatwt) * real_of_int c)"
      using hc(1,2) by blast
  qed
  have "\<exists>scores.
            dbtrxmap m = Inr scores \<and>
            fst ` set scores = set (sig_assets (gain6m (signals m))) \<and>
            (\<forall>a \<in> set (sig_assets (gain6m (signals m))).
               \<exists>h c. dict_get (heatmap m) a = Inr h \<and> dict_get (chillmap m) a = Inr c \<and>
                 map_of scores a =
                   Some (heatwt * real_of_int h + (1 - heatwt) * real_of_int c)) \<and>
            dbtransaction_asset m dt = Inr (py_slice_to (dbtrxlist scores) (mom_top_n m))"
    using sc keys blend run by blast
  then show ?thesis
    using True by simp
qed

theorem blend_asset_lists_witness:
  "sig_assets (gain6m (signals ex_top2)) = sig_assets (gain5d (signals ex_top2)) \<and>
   (\<exists>scores.
      dbtrxmap ex_top2 = Inr scores \<and>
      fst ` set scores = set (sig_assets (gain6m (signals ex_top2))) \<and>
      (\<forall>a \<in> set (sig_assets (gain6m (signals ex_top2))).
         \<exists>h c. dict_get (heatmap ex_top2) a = Inr h \<and> dict_get (chillmap ex_top2) a = Inr c \<and>
           map_of scores a = Some (heatwt * real_of_int h + (1 - heatwt) * real_of_int c)) \<and>
      dbtransaction_asset ex_top2 0 = Inr (py_slice_to (dbtrxlist scores) (mom_top_n ex_top2))) \<and>
   set (sig_assets (gain6m (signals ex_differ))) \<noteq> set (sig_assets (gain5d (signals ex_differ))) \<and>
   dbtransaction_asset ex_differ 0 = Inl AssertionError"
proof -
  have h1: "sig_assets (gain6m (signals ex_top2)) = sig_assets (gain5d (signals ex_top2))"
    by (simp add: ex_top2_def example_defs)
  have h2: "set (sig_assets (gain6m (signals ex_differ))) \<noteq>
      set (sig_assets (gain5d (signals ex_differ)))"
    by (simp add: ex_differ_def example_defs doubleton_eq_iff)
  show ?thesis
    using h1 h2 blend_asset_lists [of ex_top2 0] blend_asset_lists [of ex_differ 0]
    by (simp only: if_True simp_thms)
qed

text \<open>
  Equal asset sets are not enough for the blend to succeed: the same two assets listed in a
  different order fail the assertion.
\<close>

theorem blend_same_set_counterexample:
  "set (sig_assets (gain6m (signals ex_swapped))) = set (sig_assets (gain5d (signals ex_swapped))) \<and>
   dbtransaction_asset ex_swapped 0 = Inl AssertionError \<and>
   call ex_swapped 0 = Inl AssertionError"
  by (simp add: ex_swapped_def model_defs example_defs insert_commute)

section \<open>Construction\<close>

text \<open>
  C8 (as amended). The constructor performs no validation: for every top-N count, also one
  below \<open>1\<close>, it succeeds and stores the count unchanged, together with the other
  arguments and the two fixed lookbacks.
\<close>

theorem init_stores_top_n:
  "\<exists>m. init sigs lookback top_n uni = Inr m \<and> signals m = sigs \<and> mom_lookback m = lookback \<and>
        mom_top_n m = top_n \<and> universe m = uni \<and> gain6m_lookback m = 126 \<and>
        gain5d_lookback m = 5"
  by (simp add: init_def)

text \<open>
  With \<open>topN = 0\<close> the construction succeeds, and so does an evaluation of the state it
  builds.
\<close>

theorem init_top_n_counterexample:
  "(0 :: int) < 1 \<and>
   init (ex_signals abcd abcd 126) 126 0 (ex_universe abcd) = Inr ex_zero \<and>
   call ex_zero 0 = Inr [(''A'', 0), (''B'', 0), (''C'', 0), (''D'', 0)]"
  using ex_zero_call
  by (simp add: init_def ex_zero_def ex_model_def)

section \<open>Assets outside the universe\<close>

lemma universe_irrelevant:
  "dbtransaction_asset (m\<lparr>universe := u\<rparr>) dt = dbtransaction_asset m dt"
  by (simp add: dbtransaction_asset_def dbtrxmap_def heatmap_def chillmap_def heat_def chill_def
      all_6m_def all_5d_def split: sum.splits)

text \<open>
  C9. The selection is computed from the \<^verbatim>\<open>gain6m\<close> signal's asset list: the selected assets
  are among the listed ones, and replacing the universe leaves the selection unchanged. Past
  the warmup gate, a selected asset that is no universe member at \<open>dt\<close> gets the weight
  \<open>1 / topN\<close> in the returned dictionary, whose key set then differs from the universe's
  members. The state \<open>ex_stray\<close> is one in which this happens.
\<close>

theorem selects_from_signal_assets:
  assumes gate: "mom_lookback m \<le> warmup (signals m)"
    and sel: "dbtransaction_asset m dt = Inr sel"
    and a: "a \<in> set sel"
    and stray: "a \<notin> set (universe m dt)"
  shows "set sel \<subseteq> set (sig_assets (gain6m (signals m))) \<and>
         dbtransaction_asset (m\<lparr>universe := u\<rparr>) dt = Inr sel \<and>
         (\<exists>w. call m dt = Inr w \<and>
              map_of w a = Some (1 / real_of_int (mom_top_n m)) \<and>
              a \<in> fst ` set w \<and>
              fst ` set w \<noteq> set (universe m dt))"
proof -
  let ?w = "fold (\<lambda>a d. dict_set d a (1 / real_of_int (mom_top_n m))) sel
              (dict_comp (\<lambda>a. 0) (universe m dt))"
  have 1: "set sel \<subseteq> set (sig_assets (gain6m (signals m)))"
    using sel by (rule selection_facts(2))
  have 2: "dbtransaction_asset (m\<lparr>universe := u\<rparr>) dt = Inr sel"
    using sel by (simp only: universe_irrelevant)
  have w: "call m dt = Inr ?w"
    using gate sel by (rule call_active)
  have wa: "map_of ?w a = Some (1 / real_of_int (mom_top_n m))"
    using a by (rule weights_of_selected)
  have key: "a \<in> fst ` set ?w"
    using a by (simp only: keys_weights) simp
  then have "fst ` set ?w \<noteq> set (universe m dt)"
    using stray by blast
  then show ?thesis
    using 1 2 w wa key by blast
qed

theorem selects_from_signal_assets_witness:
  "mom_lookback ex_stray \<le> warmup (signals ex_stray) \<and>
   dbtransaction_asset ex_stray 0 = Inr [''B''] \<and>
   ''B'' \<in> set [''B''] \<and>
   ''B'' \<notin> set (universe ex_stray 0) \<and>
   call ex_stray 0 = Inr [(''A'', 0), (''B'', 1)] \<and>
   (\<exists>w. call ex_stray 0 = Inr w \<and>
        map_of w ''B'' = Some (1 / real_of_int (mom_top_n ex_stray)) \<and>
        ''B'' \<in> fst ` set w \<and>
        fst ` set w \<noteq> set (universe ex_stray 0))"
proof -
  have h1: "mom_lookback ex_stray \<le> warmup (signals ex_stray)"
    by (simp add: ex_stray_def example_defs)
  have h2: "dbtransaction_asset ex_stray 0 = Inr [''B'']"
    by (simp add: ex_stray_def model_defs example_defs)
  have h3: "''B'' \<in> set [''B'']"
    by simp
  have h4: "''B'' \<notin> set (universe ex_stray 0)"
    by (simp add: ex_stray_def example_defs)
  show ?thesis
    using h1 h2 h3 h4 ex_stray_call selects_from_signal_assets [OF h1 h2 h3 h4]
    by blast
qed

section \<open>A top-N count of zero\<close>

text \<open>
  C10. With \<open>mom_top_n = 0\<close>, the warmup satisfied and the assertion on the asset lists
  passing, the slice \<^verbatim>\<open>[:0]\<close> is empty, the loop that divides by \<open>mom_top_n\<close> has no
  iteration, and \<^verbatim>\<open>__call__\<close> returns, without raising, the dictionary of the universe
  members each mapped to \<open>0\<close>.
\<close>

theorem call_top_n_zero:
  assumes gate: "mom_lookback m \<le> warmup (signals m)"
    and eq: "sig_assets (gain6m (signals m)) = sig_assets (gain5d (signals m))"
    and zero: "mom_top_n m = 0"
  shows "dbtransaction_asset m dt = Inr [] \<and>
         call m dt = Inr (dict_comp (\<lambda>a. 0) (universe m dt)) \<and>
         fst ` set (dict_comp (\<lambda>a. 0 :: real) (universe m dt)) = set (universe m dt) \<and>
         snd ` set (dict_comp (\<lambda>a. 0 :: real) (universe m dt)) \<subseteq> {0}"
proof -
  obtain scores where "dbtransaction_asset m dt = Inr (py_slice_to (dbtrxlist scores) (mom_top_n m))"
    using dbtransaction_asset_ok [OF eq] by blast
  then have sel: "dbtransaction_asset m dt = Inr []"
    using zero by (simp add: py_slice_to_zero)
  have "call m dt = Inr (fold (\<lambda>a d. dict_set d a (1 / real_of_int (mom_top_n m))) []
      (dict_comp (\<lambda>a. 0) (universe m dt)))"
    using gate sel by (rule call_active)
  then show ?thesis
    using sel by (simp add: keys_dict_comp values_dict_comp_const)
qed

theorem call_top_n_zero_witness:
  "mom_lookback ex_zero \<le> warmup (signals ex_zero) \<and>
   sig_assets (gain6m (signals ex_zero)) = sig_assets (gain5d (signals ex_zero)) \<and>
   mom_top_n ex_zero = 0 \<and>
   dbtransaction_asset ex_zero 0 = Inr [] \<and>
   call ex_zero 0 = Inr [(''A'', 0), (''B'', 0), (''C'', 0), (''D'', 0)]"
proof -
  have h1: "mom_lookback ex_zero \<le> warmup (signals ex_zero)"
    by (simp add: ex_zero_def example_defs)
  have h2: "sig_assets (gain6m (signals ex_zero)) = sig_assets (gain5d (signals ex_zero))"
    by (simp add: ex_zero_def example_defs)
  have h3: "mom_top_n ex_zero = 0"
    by (simp add: ex_zero_def example_defs)
  have "dict_comp (\<lambda>a. 0 :: real) (universe ex_zero 0) =
      [(''A'', 0), (''B'', 0), (''C'', 0), (''D'', 0)]"
    by (simp add: ex_zero_def example_defs dict_comp_def)
  then show ?thesis
    using h1 h2 h3 call_top_n_zero [OF h1 h2 h3, of 0] by simp
qed

section \<open>Months and business days\<close>

lemma first_of_month_add: "first_of_month k + 28 * int n \<le> first_of_month (k + int n)"
proof (induction n)
  case 0
  then show ?case by simp
next
  case (Suc n)
  have "first_of_month (k + int n) + 28 \<le> first_of_month (k + int n + 1)"
    using month_length [of "k + int n"] by simp
  then show ?case
    using Suc by (simp add: algebra_simps)
qed

lemma first_of_month_mono: "k \<le> k' \<Longrightarrow> first_of_month k + 28 * (k' - k) \<le> first_of_month k'"
  using first_of_month_add [of k "nat (k' - k)"] by simp

lemma first_of_month_less: "k < k' \<Longrightarrow> first_of_month k + 28 \<le> first_of_month k'"
  using first_of_month_mono [of k k'] by simp

lemma month_down_le: "first_of_month (month_down k d) \<le> d"
proof (induction k d rule: month_down.induct)
  case (1 k d)
  then show ?case
    by (cases "first_of_month k \<le> d") (simp_all add: month_down.simps [of k d])
qed

lemma month_up_bounds:
  "first_of_month k \<le> d \<Longrightarrow>
     first_of_month (month_up k d) \<le> d \<and> d < first_of_month (month_up k d + 1)"
proof (induction k d rule: month_up.induct)
  case (1 k d)
  show ?case
  proof (cases "d < first_of_month (k + 1)")
    case True
    then show ?thesis
      using "1.prems" by (simp add: month_up.simps [of k d])
  next
    case False
    then have "first_of_month (k + 1) \<le> d"
      by simp
    with False "1.IH" show ?thesis
      by (simp add: month_up.simps [of k d])
  qed
qed

lemma month_of_lower: "first_of_month (month_of d) \<le> d"
  using month_up_bounds [OF month_down_le, of "23640 + (d * 4800) div 146097" d]
  by (simp add: month_of_def)

lemma month_of_upper: "d < first_of_month (month_of d + 1)"
  using month_up_bounds [OF month_down_le, of "23640 + (d * 4800) div 146097" d]
  by (simp add: month_of_def)

lemma month_of_unique:
  assumes "first_of_month k \<le> d" and "d < first_of_month (k + 1)"
  shows "month_of d = k"
proof (rule ccontr)
  assume ne: "month_of d \<noteq> k"
  show False
  proof (cases "month_of d < k")
    case True
    then have "month_of d + 1 \<le> k" by simp
    then have "first_of_month (month_of d + 1) \<le> first_of_month k"
      using first_of_month_mono [of "month_of d + 1" k] by simp
    then show False
      using month_of_upper [of d] assms(1) by simp
  next
    case False
    then have "k + 1 \<le> month_of d" using ne by simp
    then have "first_of_month (k + 1) \<le> first_of_month (month_of d)"
      using first_of_month_mono [of "k + 1" "month_of d"] by simp
    then show False
      using month_of_lower [of d] assms(2) by simp
  qed
qed

lemma month_of_mono: "d \<le> d' \<Longrightarrow> month_of d \<le> month_of d'"
proof (rule ccontr)
  assume le: "d \<le> d'" and "\<not> month_of d \<le> month_of d'"
  then have "month_of d' + 1 \<le> month_of d" by simp
  then have "first_of_month (month_of d' + 1) \<le> first_of_month (month_of d)"
    using first_of_month_mono [of "month_of d' + 1" "month_of d"] by simp
  then show False
    using month_of_lower [of d] month_of_upper [of d'] le by simp
qed

lemma weekday_range: "0 \<le> weekday d" "weekday d < 7"
  by (simp_all add: weekday_def)

lemma first_bday_bounds:
  "first_of_month k \<le> first_bday_of_month k" "first_bday_of_month k \<le> first_of_month k + 2"
  by (simp_all add: first_bday_of_month_def Let_def)

lemma weekday_add: "weekday (d + n) = (weekday d + n) mod 7"
  by (simp add: weekday_def mod_simps algebra_simps)

lemma first_bday_is_bday: "is_bday (first_bday_of_month k)"
proof -
  let ?f = "first_of_month k"
  have r: "0 \<le> weekday ?f" "weekday ?f < 7"
    by (rule weekday_range)+
  show ?thesis
  proof (cases "weekday ?f = 5")
    case True
    then show ?thesis
      by (simp add: first_bday_of_month_def is_bday_def weekday_add [of ?f 2])
  next
    case n5: False
    show ?thesis
    proof (cases "weekday ?f = 6")
      case True
      then show ?thesis
        by (simp add: first_bday_of_month_def is_bday_def weekday_add [of ?f 1])
    next
      case False
      then have "weekday ?f < 5"
        using n5 r by linarith
      then show ?thesis
        using n5 False by (simp add: first_bday_of_month_def is_bday_def)
    qed
  qed
qed

lemma month_of_first_bday: "month_of (first_bday_of_month k) = k"
proof (rule month_of_unique)
  show "first_of_month k \<le> first_bday_of_month k"
    by (rule first_bday_bounds)
  show "first_bday_of_month k < first_of_month (k + 1)"
    using first_bday_bounds(2) [of k] month_length [of k] by linarith
qed

lemma first_bday_less: "k < k' \<Longrightarrow> first_bday_of_month k < first_bday_of_month k'"
  using first_bday_bounds(2) [of k] first_bday_bounds(1) [of k'] first_of_month_less [of k k']
  by linarith

lemma next_bday_cases:
  "next_bday d = d + 1 \<or> next_bday d = d + 2 \<or> next_bday d = d + 3"
  by (simp add: next_bday_def Let_def)

lemma next_bday_greater: "d < next_bday d"
  using next_bday_cases [of d] by linarith

lemma seven:
  "0 \<le> (w::int) \<Longrightarrow> w < 7 \<Longrightarrow> w = 0 \<or> w = 1 \<or> w = 2 \<or> w = 3 \<or> w = 4 \<or> w = 5 \<or> w = 6"
  by presburger

lemma next_bday_is_bday: "is_bday (next_bday d)"
proof -
  have "weekday d = 0 \<or> weekday d = 1 \<or> weekday d = 2 \<or> weekday d = 3 \<or> weekday d = 4 \<or>
      weekday d = 5 \<or> weekday d = 6"
    using weekday_range [of d] by (rule seven)
  then show ?thesis
    by (elim disjE) (simp_all add: next_bday_def is_bday_def weekday_add)
qed

lemma next_bday_least:
  assumes "is_bday b" and "d < b"
  shows "next_bday d \<le> b"
proof (cases "weekday d = 4")
  case True
  have "b \<noteq> d + 1"
    using assms(1) True by (auto simp: is_bday_def weekday_add)
  moreover have "b \<noteq> d + 2"
    using assms(1) True by (auto simp: is_bday_def weekday_add)
  ultimately have "d + 3 \<le> b"
    using assms(2) by linarith
  then show ?thesis
    using True by (simp add: next_bday_def)
next
  case n4: False
  show ?thesis
  proof (cases "weekday d = 5")
    case True
    have "b \<noteq> d + 1"
      using assms(1) True by (auto simp: is_bday_def weekday_add)
    then have "d + 2 \<le> b"
      using assms(2) by linarith
    then show ?thesis
      using True by (simp add: next_bday_def)
  next
    case False
    then show ?thesis
      using n4 assms(2) by (simp add: next_bday_def)
  qed
qed

lemma next_bday_strict_mono:
  assumes "is_bday b" and "a < b"
  shows "next_bday a < next_bday b"
  using next_bday_least [OF assms] next_bday_greater [of b] by linarith

lemma add_BDay_strict_mono:
  "is_bday a \<Longrightarrow> is_bday b \<Longrightarrow> a < b \<Longrightarrow>
     is_bday (spec_add_BDay n a) \<and> is_bday (spec_add_BDay n b) \<and>
     spec_add_BDay n a < spec_add_BDay n b"
proof (induction n)
  case 0
  then show ?case by (simp add: spec_add_BDay_def)
next
  case (Suc n)
  then have "is_bday (spec_add_BDay n b)" "spec_add_BDay n a < spec_add_BDay n b"
    by simp_all
  then have "next_bday (spec_add_BDay n a) < next_bday (spec_add_BDay n b)"
    by (rule next_bday_strict_mono)
  then show ?case
    by (simp add: spec_add_BDay_def next_bday_is_bday)
qed

lemma anchors_sorted: "sorted_wrt (<) (spec_date_range_BMS s e)"
proof -
  have "sorted_wrt (\<lambda>k k'. first_bday_of_month k < first_bday_of_month k') [month_of s .. month_of e]"
    by (rule sorted_wrt_mono_rel [of _ "(<)"]) (simp_all add: first_bday_less)
  then have "sorted_wrt (<) (map first_bday_of_month [month_of s .. month_of e])"
    by (simp add: sorted_wrt_map)
  then show ?thesis
    unfolding spec_date_range_BMS_def by (rule sorted_wrt_filter)
qed

lemma anchors_bday: "a \<in> set (spec_date_range_BMS s e) \<Longrightarrow> is_bday a"
  by (auto simp: spec_date_range_BMS_def first_bday_is_bday)

lemma anchors_in_range: "a \<in> set (spec_date_range_BMS s e) \<Longrightarrow> s \<le> a \<and> a \<le> e"
  by (auto simp: spec_date_range_BMS_def)

lemma shifted_sorted:
  "sorted_wrt (<) (map (\<lambda>x. spec_add_BDay n x) (spec_date_range_BMS s e))"
proof -
  have "sorted_wrt (\<lambda>a b. spec_add_BDay n a < spec_add_BDay n b) (spec_date_range_BMS s e)"
  proof (rule sorted_wrt_mono_rel [of _ "(<)"])
    fix a b
    assume "a \<in> set (spec_date_range_BMS s e)" "b \<in> set (spec_date_range_BMS s e)" "a < b"
    then show "spec_add_BDay n a < spec_add_BDay n b"
      using add_BDay_strict_mono [of a b n] anchors_bday by blast
  next
    show "sorted_wrt (<) (spec_date_range_BMS s e)"
      by (rule anchors_sorted)
  qed
  then show ?thesis
    by (simp add: sorted_wrt_map)
qed

lemma time_of_day_market: "0 \<le> time_of_day (set_market_time pm) \<and> time_of_day (set_market_time pm) < 86400"
  by (cases pm) (simp_all add: set_market_time_def digit_val_def)

lemma rebalances_eq:
  "rebalances (monthly_init spec_pandas s e n pm) =
     map (\<lambda>d. d * 86400 + time_of_day (set_market_time pm))
       (map (\<lambda>x. spec_add_BDay n x) (spec_date_range_BMS s e))"
  by (simp add: monthly_init_def generate_rebalances_def spec_pandas_def spec_timestamp_utc_def Let_def)

lemma rebalances_sorted: "sorted_wrt (<) (rebalances (monthly_init spec_pandas s e n pm))"
proof -
  let ?t = "time_of_day (set_market_time pm)"
  have "sorted_wrt (\<lambda>a b. a * 86400 + ?t < b * 86400 + ?t)
      (map (\<lambda>x. spec_add_BDay n x) (spec_date_range_BMS s e))"
    by (rule sorted_wrt_mono_rel [OF _ shifted_sorted]) simp
  then show ?thesis
    unfolding rebalances_eq by (simp only: sorted_wrt_map)
qed

lemma rebalances_time:
  "t \<in> set (rebalances (monthly_init spec_pandas s e n pm)) \<Longrightarrow>
     t mod 86400 = time_of_day (set_market_time pm)"
proof -
  assume "t \<in> set (rebalances (monthly_init spec_pandas s e n pm))"
  then obtain d where "t = d * 86400 + time_of_day (set_market_time pm)"
    unfolding rebalances_eq by auto
  then show ?thesis
    using time_of_day_market [of pm] by simp
qed

section \<open>The events of the monthly calendar\<close>

lemma tod_pre: "time_of_day (set_market_time True) = 52200"
  by (simp add: set_market_time_def digit_val_def)

lemma tod_post: "time_of_day (set_market_time False) = 75600"
  by (simp add: set_market_time_def digit_val_def)

lemma inner_month_start: "month_of s < k \<Longrightarrow> s \<le> first_bday_of_month k"
proof -
  assume "month_of s < k"
  then have "first_of_month (month_of s + 1) \<le> first_of_month k"
    using first_of_month_mono [of "month_of s + 1" k] by simp
  then show ?thesis
    using month_of_upper [of s] first_bday_bounds(1) [of k] by linarith
qed

lemma inner_month_end: "k < month_of e \<Longrightarrow> first_bday_of_month k \<le> e"
proof -
  assume "k < month_of e"
  then have "first_of_month k + 28 \<le> first_of_month (month_of e)"
    by (rule first_of_month_less)
  then show ?thesis
    using month_of_lower [of e] first_bday_bounds(2) [of k] by linarith
qed

lemma inner_month_anchor:
  "month_of s < k \<Longrightarrow> k < month_of e \<Longrightarrow> first_bday_of_month k \<in> set (spec_date_range_BMS s e)"
  using inner_month_start [of s k] inner_month_end [of k e]
  by (simp add: spec_date_range_BMS_def)

lemma anchor_months:
  "map month_of (spec_date_range_BMS s e) =
     filter (\<lambda>k. s \<le> first_bday_of_month k \<and> first_bday_of_month k \<le> e)
       [month_of s .. month_of e]"
proof -
  have "map month_of (filter P (map first_bday_of_month ks)) =
      filter (\<lambda>k. P (first_bday_of_month k)) ks" for P ks
    by (induction ks) (simp_all add: month_of_first_bday)
  then show ?thesis
    by (simp add: spec_date_range_BMS_def)
qed

lemma anchor_months_sorted: "sorted_wrt (<) (map month_of (spec_date_range_BMS s e))"
  unfolding anchor_months by (rule sorted_wrt_filter) simp

lemma anchor_months_range:
  "set (map month_of (spec_date_range_BMS s e)) \<subseteq> {month_of s .. month_of e}"
  unfolding anchor_months by auto

lemma anchors_upper:
  assumes "s \<le> e"
  shows "int (length (spec_date_range_BMS s e)) \<le> month_of e - month_of s + 1"
proof -
  have "length (spec_date_range_BMS s e) \<le> length (map first_bday_of_month [month_of s .. month_of e])"
    unfolding spec_date_range_BMS_def by (rule length_filter_le)
  then show ?thesis
    using month_of_mono [OF assms] by simp
qed

lemma anchors_lower:
  assumes "s \<le> e"
  shows "month_of e - month_of s + 1 \<le> int (length (spec_date_range_BMS s e)) + 2"
proof (cases "month_of s + 1 < month_of e")
  case False
  then show ?thesis by simp
next
  case True
  let ?a = "month_of s" and ?b = "month_of e"
  let ?P = "\<lambda>k. s \<le> first_bday_of_month k \<and> first_bday_of_month k \<le> e"
  have inner: "filter ?P [?a + 1 .. ?b - 1] = [?a + 1 .. ?b - 1]"
    using inner_month_start [of s] inner_month_end [of _ e] by (intro filter_True) auto
  have "[?a .. ?b] = [?a .. ?a] @ [?a + 1 .. ?b - 1] @ [?b]"
  proof -
    have "[?a .. ?b] = ?a # [?a + 1 .. ?b]"
      using True by (intro upto_rec1) simp
    moreover have "[?a + 1 .. ?b] = [?a + 1 .. ?b - 1] @ [?b]"
      using True by (intro upto_rec2) simp
    ultimately show ?thesis by simp
  qed
  then have "filter ?P [?a .. ?b] =
      filter ?P [?a .. ?a] @ filter ?P [?a + 1 .. ?b - 1] @ filter ?P [?b]"
    by (simp only: filter_append)
  then have "length (filter ?P [?a .. ?b]) \<ge> length [?a + 1 .. ?b - 1]"
    unfolding inner by simp
  moreover have "length (spec_date_range_BMS s e) = length (filter ?P [?a .. ?b])"
    using arg_cong [OF anchor_months [of s e], of length] by simp
  ultimately have "length [?a + 1 .. ?b - 1] \<le> length (spec_date_range_BMS s e)"
    by simp
  then show ?thesis
    using True by simp
qed

lemma ex_anchors: "spec_date_range_BMS 18262 18400 = [18262, 18295, 18323, 18353, 18383]"
  by code_simp

lemma ex_months: "month_of 18262 = 24240" "month_of 18400 = 24244"
  by code_simp+

lemma ex_shift: "map (\<lambda>x. spec_add_BDay 2 x) [18262, 18295, 18323, 18353, 18383] =
    [18264, 18297, 18325, 18355, 18387]"
  by (simp add: spec_add_BDay_def numeral_2_eq_2 next_bday_def weekday_def)

lemma ex_rebalances:
  "rebalances (monthly_init spec_pandas 18262 18400 2 True) =
     [1578061800, 1580913000, 1583332200, 1585924200, 1588689000]"
  unfolding rebalances_eq ex_anchors ex_shift
  by (simp add: set_market_time_def digit_val_def)

text \<open>
  C6. For every \<open>start \<le> end\<close> the rebalance timestamps of the Monthly calendar are strictly
  increasing; every one of them carries the configured time of day, \<^verbatim>\<open>14:30:00\<close> (52200
  seconds) when \<open>pre_market\<close> is true and the later \<^verbatim>\<open>21:00:00\<close> (75600 seconds) when it is
  false; and there is one event per calendar month of the range, up to the boundaries: one
  event for every anchor, the anchors lie in pairwise different months between the month of
  \<open>start\<close> and the month of \<open>end\<close>, every month strictly between the two has its anchor, and
  so the number of events differs by at most one from the number of months between \<open>start\<close>
  and \<open>end\<close> (the difference of their months), each of the two boundary months having its
  event or not.
\<close>

theorem monthly_calendar:
  assumes "s \<le> e"
  shows "sorted_wrt (<) (rebalances (monthly_init spec_pandas s e n pm)) \<and>
         (\<forall>t \<in> set (rebalances (monthly_init spec_pandas s e n pm)).
            t mod 86400 = time_of_day (pre_market_time (monthly_init spec_pandas s e n pm))) \<and>
         pre_market_time (monthly_init spec_pandas s e n pm) =
           (if pm then ''14:30:00'' else ''21:00:00'') \<and>
         time_of_day ''14:30:00'' = 52200 \<and> time_of_day ''21:00:00'' = 75600 \<and>
         length (rebalances (monthly_init spec_pandas s e n pm)) =
           length (date_range_BMS spec_pandas s e) \<and>
         sorted_wrt (<) (map month_of (date_range_BMS spec_pandas s e)) \<and>
         set (map month_of (date_range_BMS spec_pandas s e)) \<subseteq> {month_of s .. month_of e} \<and>
         (\<forall>k. month_of s < k \<and> k < month_of e \<longrightarrow>
            first_bday_of_month k \<in> set (date_range_BMS spec_pandas s e)) \<and>
         int (length (rebalances (monthly_init spec_pandas s e n pm))) \<le>
           (month_of e - month_of s) + 1 \<and>
         (month_of e - month_of s) - 1 \<le>
           int (length (rebalances (monthly_init spec_pandas s e n pm)))"
proof -
  let ?R = "monthly_init spec_pandas s e n pm"
  have dr: "date_range_BMS spec_pandas s e = spec_date_range_BMS s e"
    by (simp add: spec_pandas_def)
  have tm: "pre_market_time ?R = set_market_time pm"
    by (simp add: monthly_init_def Let_def)
  have 1: "sorted_wrt (<) (rebalances ?R)"
    by (rule rebalances_sorted)
  have 2: "\<forall>t \<in> set (rebalances ?R). t mod 86400 = time_of_day (pre_market_time ?R)"
    unfolding tm using rebalances_time by blast
  have 3: "pre_market_time ?R = (if pm then ''14:30:00'' else ''21:00:00'')"
    unfolding tm by (simp add: set_market_time_def)
  have 4: "time_of_day ''14:30:00'' = 52200" "time_of_day ''21:00:00'' = 75600"
    by (simp_all add: digit_val_def)
  have 5: "length (rebalances ?R) = length (date_range_BMS spec_pandas s e)"
    unfolding dr rebalances_eq by simp
  have 6: "sorted_wrt (<) (map month_of (date_range_BMS spec_pandas s e))"
    unfolding dr by (rule anchor_months_sorted)
  have 7: "set (map month_of (date_range_BMS spec_pandas s e)) \<subseteq> {month_of s .. month_of e}"
    unfolding dr by (rule anchor_months_range)
  have 8: "\<forall>k. month_of s < k \<and> k < month_of e \<longrightarrow>
      first_bday_of_month k \<in> set (date_range_BMS spec_pandas s e)"
    unfolding dr using inner_month_anchor by blast
  have 9: "int (length (rebalances ?R)) \<le> month_of e - month_of s + 1"
    unfolding 5 dr using assms by (rule anchors_upper)
  have 10: "(month_of e - month_of s) - 1 \<le> int (length (rebalances ?R))"
    unfolding 5 dr using anchors_lower [OF assms] by simp
  show ?thesis
    using 1 2 3 4 5 6 7 8 9 10 by (intro conjI)
qed

theorem monthly_calendar_witness:
  "(18262 :: int) \<le> 18400 \<and>
   rebalances (monthly_init spec_pandas 18262 18400 2 True) =
     [1578061800, 1580913000, 1583332200, 1585924200, 1588689000] \<and>
   sorted_wrt (<) (rebalances (monthly_init spec_pandas 18262 18400 2 True)) \<and>
   pre_market_time (monthly_init spec_pandas 18262 18400 2 True) = ''14:30:00'' \<and>
   month_of 18262 = 24240 \<and> month_of 18400 = 24244 \<and>
   int (length (rebalances (monthly_init spec_pandas 18262 18400 2 True))) \<le>
     (month_of 18400 - month_of 18262) + 1 \<and>
   (month_of 18400 - month_of 18262) - 1 \<le>
     int (length (rebalances (monthly_init spec_pandas 18262 18400 2 True)))"
proof -
  have h: "(18262 :: int) \<le> 18400"
    by simp
  note cal = monthly_calendar [OF h, of 2 True]
  have srt: "sorted_wrt (<) (rebalances (monthly_init spec_pandas 18262 18400 2 True))"
    using cal by (rule conjunct1)
  have tm: "pre_market_time (monthly_init spec_pandas 18262 18400 2 True) = ''14:30:00''"
    using cal by simp
  have up: "int (length (rebalances (monthly_init spec_pandas 18262 18400 2 True))) \<le>
      (month_of 18400 - month_of 18262) + 1"
    using cal by blast
  have lo: "(month_of 18400 - month_of 18262) - 1 \<le>
      int (length (rebalances (monthly_init spec_pandas 18262 18400 2 True)))"
    using cal by blast
  show ?thesis
    using h ex_rebalances ex_months srt tm up lo by (intro conjI)
qed

text \<open>
  C7. When \<open>end < start\<close> no anchor lies in the range: the date range is empty, and the two
  list comprehensions map the empty list to the empty list, so the calendar is the empty
  sequence and nothing is raised.
\<close>

theorem monthly_empty_range:
  assumes "e < s"
  shows "generate_rebalances spec_pandas s e n tm = [] \<and>
         rebalances (monthly_init spec_pandas s e n pm) = []"
proof -
  have "spec_date_range_BMS s e = []"
    using assms by (auto simp: spec_date_range_BMS_def filter_empty_conv)
  then have "map (\<lambda>x. spec_add_BDay n x) (spec_date_range_BMS s e) = []"
    by simp
  then have "rebalances (monthly_init spec_pandas s e n pm) = []"
    unfolding rebalances_eq by simp
  moreover have "generate_rebalances spec_pandas s e n tm = []"
    using \<open>spec_date_range_BMS s e = []\<close>
    by (simp add: generate_rebalances_def spec_pandas_def)
  ultimately show ?thesis
    by simp
qed

theorem monthly_empty_range_witness:
  "(18262 :: int) < 18400 \<and>
   generate_rebalances spec_pandas 18400 18262 0 ''21:00:00'' = [] \<and>
   rebalances (monthly_init spec_pandas 18400 18262 0 False) = []"
proof -
  have h: "(18262 :: int) < 18400"
    by simp
  show ?thesis
    using h monthly_empty_range [OF h, of 0 "''21:00:00''" False] by simp
qed

end
